theory Spec2Isabelle
  imports Main "HOL-Library.Word"
begin

unbundle bit_operations_syntax

section \<open>The outside world: files, handles and watchers\<close>

text \<open>
  gotail follows one path. Everything it does goes through four collaborators:
  \<^verbatim>\<open>os.Open\<close>, \<^verbatim>\<open>(*os.File).Seek\<close> and \<^verbatim>\<open>Close\<close>,
  \<^verbatim>\<open>bufio.Reader.ReadString\<close>, and the fsnotify watcher. They are modelled by
  their documented behaviour on an explicit world.

  The file system maps a path to a file identity and a file identity to its bytes, so a
  handle keeps reading the file it was opened on after the path is renamed away. Four
  fields say which calls the operating system refuses. A path that is absent is refused
  with ENOENT; other refusals of an absent path (ENOTDIR) are not modelled.
\<close>

datatype error =
    ErrNotExist      \<comment> \<open>ENOENT: the only error for which os.IsNotExist holds\<close>
  | ErrPermission    \<comment> \<open>os.Open refused for another reason\<close>
  | ErrSeek          \<comment> \<open>Seek refused (the file is a pipe)\<close>
  | ErrInvalid       \<comment> \<open>Seek to a negative offset or with an unknown whence\<close>
  | ErrNewWatcher    \<comment> \<open>fsnotify.NewWatcher refused\<close>
  | ErrWatch         \<comment> \<open>Watcher.Add refused\<close>
  | ErrClosed        \<comment> \<open>use of a closed file or watcher\<close>
  | EOF              \<comment> \<open>io.EOF\<close>

definition IsNotExist :: "error \<Rightarrow> bool" where
  "IsNotExist e = (e = ErrNotExist)"

record fsys =
  names :: "string \<rightharpoonup> nat"
  content :: "nat \<Rightarrow> string"
  noaccess :: "string \<Rightarrow> bool"
  noseek :: "nat \<Rightarrow> bool"
  nowatch :: "string \<Rightarrow> bool"
  notify_down :: bool

datatype logmsg = WARN error | FATA error

text \<open>
  The process side of the world: the open files (each with the file it reads and its
  offset), the open watchers (each with the paths added to it), and the log. Files and
  watchers are numbered in the order of their creation and a number is never reused, as
  each \<^verbatim>\<open>os.Open\<close> and \<^verbatim>\<open>NewWatcher\<close> returns a new object.
\<close>

record world =
  fs :: fsys
  ofiles :: "nat \<rightharpoonup> nat \<times> nat"
  nfiles :: nat
  watchers :: "nat \<rightharpoonup> string list"
  nwatchers :: nat
  logged :: "logmsg list"

definition os_Open :: "world \<Rightarrow> string \<Rightarrow> (error + nat) \<times> world" where
  "os_Open w p =
     (case names (fs w) p of
        None \<Rightarrow> (Inl ErrNotExist, w)
      | Some ino \<Rightarrow>
          if noaccess (fs w) p then (Inl ErrPermission, w)
          else (Inr (nfiles w),
                w\<lparr>ofiles := (ofiles w)(nfiles w \<mapsto> (ino, 0)), nfiles := Suc (nfiles w)\<rparr>))"

definition file_Close :: "world \<Rightarrow> nat \<Rightarrow> world" where
  "file_Close w f = w\<lparr>ofiles := (ofiles w)(f := None)\<rparr>"

text \<open>\<^verbatim>\<open>Seek(offset, whence)\<close>: whence 0 counts from the start, 1 from the current
  offset, 2 from the end of the file.\<close>

definition Seek :: "world \<Rightarrow> nat \<Rightarrow> int \<Rightarrow> nat \<Rightarrow> (int \<times> error option) \<times> world" where
  "Seek w f off whence =
     (case ofiles w f of
        None \<Rightarrow> ((0, Some ErrClosed), w)
      | Some (ino, pos) \<Rightarrow>
          if noseek (fs w) ino then ((0, Some ErrSeek), w)
          else
            (let base = (if whence = 0 then 0
                         else if whence = 1 then int pos
                         else int (length (content (fs w) ino)));
                 new = base + off
             in if 2 < whence \<or> new < 0 then ((0, Some ErrInvalid), w)
                else ((new, None), w\<lparr>ofiles := (ofiles w)(f \<mapsto> (ino, nat new))\<rparr>)))"

text \<open>
  \<^verbatim>\<open>ReadString(delim)\<close> reads until the first occurrence of the delimiter and returns
  the bytes up to and including it. When it meets an error before a delimiter it returns
  the bytes read before the error, and the error: at the end of the file that is every
  remaining byte, with \<^verbatim>\<open>io.EOF\<close>. The bytes it returns are consumed in both cases.
  bufio reads ahead into a buffer, but what it has read ahead and not returned stays
  available to the next call, so one offset is kept: that of the next byte
  \<^verbatim>\<open>ReadString\<close> will return. The reader is identified with the file it wraps.
  This is exact while files only grow and a reader is not used after its file is closed;
  bytes that bufio has read ahead and that are then overwritten in place, or served
  after the close, are not modelled.
\<close>

definition ReadString :: "world \<Rightarrow> nat \<Rightarrow> char \<Rightarrow> (string \<times> error option) \<times> world" where
  "ReadString w r delim =
     (case ofiles w r of
        None \<Rightarrow> (([], Some ErrClosed), w)
      | Some (ino, pos) \<Rightarrow>
          (let rest = drop pos (content (fs w) ino)
           in if delim \<in> set rest
              then (let line = takeWhile (\<lambda>c. c \<noteq> delim) rest @ [delim]
                    in ((line, None), w\<lparr>ofiles := (ofiles w)(r \<mapsto> (ino, pos + length line))\<rparr>))
              else ((rest, Some EOF), w\<lparr>ofiles := (ofiles w)(r \<mapsto> (ino, pos + length rest))\<rparr>)))"

text \<open>\<^verbatim>\<open>strings.TrimRight(s, cutset)\<close> removes every trailing character that is in
  the cutset.\<close>

definition TrimRight :: "string \<Rightarrow> string \<Rightarrow> string" where
  "TrimRight s cutset = rev (dropWhile (\<lambda>c. c \<in> set cutset) (rev s))"

definition NewWatcher :: "world \<Rightarrow> (error + nat) \<times> world" where
  "NewWatcher w =
     (if notify_down (fs w) then (Inl ErrNewWatcher, w)
      else (Inr (nwatchers w),
            w\<lparr>watchers := (watchers w)(nwatchers w \<mapsto> []), nwatchers := Suc (nwatchers w)\<rparr>))"

definition watcher_Close :: "world \<Rightarrow> nat \<Rightarrow> world" where
  "watcher_Close w x = w\<lparr>watchers := (watchers w)(x := None)\<rparr>"

definition watcher_Add :: "world \<Rightarrow> nat \<Rightarrow> string \<Rightarrow> error option \<times> world" where
  "watcher_Add w x p =
     (case watchers w x of
        None \<Rightarrow> (Some ErrClosed, w)
      | Some ps \<Rightarrow>
          (case names (fs w) p of
             None \<Rightarrow> (Some ErrNotExist, w)
           | Some ino \<Rightarrow>
               if nowatch (fs w) p then (Some ErrWatch, w)
               else (None, w\<lparr>watchers := (watchers w)(x \<mapsto> p # ps)\<rparr>)))"

text \<open>fsnotify's event bits (\<^verbatim>\<open>type Op uint32\<close>, \<^verbatim>\<open>1 << iota\<close>).\<close>

definition Create :: "32 word" where "Create = 1"
definition Write :: "32 word" where "Write = 2"
definition Remove :: "32 word" where "Remove = 4"
definition Rename :: "32 word" where "Rename = 8"
definition Chmod :: "32 word" where "Chmod = 16"

section \<open>The Tail object\<close>

record Config =
  Timeout :: int

text \<open>
  \<^verbatim>\<open>Lines\<close> is an unbuffered channel; the model keeps the lines sent on it, oldest
  first, for a consumer that receives each one. \<^verbatim>\<open>reader\<close>, \<^verbatim>\<open>watcher\<close> and
  \<^verbatim>\<open>file\<close> are pointers: \<open>None\<close> is nil.
\<close>

record Tail =
  Lines :: "string list"
  reader :: "nat option"
  watcher :: "nat option"
  fname :: string
  "file" :: "nat option"
  config :: Config

definition newline :: char where
  "newline = CHR 0x0A"

text \<open>\<^verbatim>\<open>readLines\<close>: one \<^verbatim>\<open>ReadString\<close>; nothing is sent when it ends with
  \<^verbatim>\<open>io.EOF\<close>, and the string it returned is then discarded.\<close>

definition readLines :: "Tail \<Rightarrow> world \<Rightarrow> Tail \<times> world" where
  "readLines t w =
     (case reader t of
        None \<Rightarrow> (t, w)
      | Some r \<Rightarrow>
          (case ReadString w r newline of
             ((line, err), w') \<Rightarrow>
               if err = Some EOF then (t, w')
               else (t\<lparr>Lines := Lines t @ [TrimRight line [newline]]\<rparr>, w')))"

definition openFile :: "Tail \<Rightarrow> bool \<Rightarrow> world \<Rightarrow> error option \<times> Tail \<times> world" where
  "openFile t newFile w =
     (let w1 = (case file t of Some f \<Rightarrow> file_Close w f | None \<Rightarrow> w)
      in case os_Open w1 (fname t) of
           (Inl e, w2) \<Rightarrow> (Some e, t\<lparr>file := None\<rparr>, w2)
         | (Inr f, w2) \<Rightarrow>
             (let t1 = t\<lparr>file := Some f\<rparr>;
                  (err, w3) = (if \<not> newFile
                               then (case Seek w2 f 0 2 of ((n, e), w') \<Rightarrow> (e, w'))
                               else (None, w2))
              in case err of
                   Some e \<Rightarrow> (Some e, t1, w3)
                 | None \<Rightarrow> (None, t1\<lparr>reader := Some f\<rparr>, w3)))"

text \<open>
  \<^verbatim>\<open>watchFile\<close> ends by starting a goroutine. Its first action, the
  \<^verbatim>\<open>readLines\<close> of a new file, is run here; its event loop is \<open>handle\<close> below, one
  call for each value the \<^verbatim>\<open>select\<close> receives.
\<close>

definition watchFile :: "Tail \<Rightarrow> bool \<Rightarrow> world \<Rightarrow> error option \<times> Tail \<times> world" where
  "watchFile t newFile w =
     (let w1 = (case watcher t of Some x \<Rightarrow> watcher_Close w x | None \<Rightarrow> w)
      in case NewWatcher w1 of
           (Inl e, w2) \<Rightarrow> (Some e, t\<lparr>watcher := None\<rparr>, w2)
         | (Inr x, w2) \<Rightarrow>
             (let t1 = t\<lparr>watcher := Some x\<rparr>
              in case watcher_Add w2 x (fname t1) of
                   (Some e, w3) \<Rightarrow> (Some e, t1, w3)
                 | (None, w3) \<Rightarrow>
                     (case (if newFile then readLines t1 w3 else (t1, w3)) of
                        (t2, w4) \<Rightarrow> (None, t2, w4))))"

text \<open>
  The retry loop of \<^verbatim>\<open>openAndWatch\<close>. Its state is the two variables the closure
  shares with its caller, \<^verbatim>\<open>newFile\<close> and \<^verbatim>\<open>err\<close>, the Tail and the world.
  \<open>env i\<close> is what other processes do to the file system between attempt \<open>i\<close> and the
  next one. The first argument bounds the number of attempts that are run: the loop either
  has sent on the \<^verbatim>\<open>timeout\<close> channel and stopped (\<open>Sent\<close>), or is still going
  (\<open>Looping\<close>).
\<close>

datatype loop =
    Sent "error option" bool "error option" Tail world
  | Looping bool "error option" Tail world

fun retry :: "nat \<Rightarrow> (nat \<Rightarrow> fsys \<Rightarrow> fsys) \<Rightarrow> nat \<Rightarrow> bool \<Rightarrow> error option \<Rightarrow> Tail \<Rightarrow> world \<Rightarrow> loop" where
  "retry 0 env i newFile err t w = Looping newFile err t w"
| "retry (Suc n) env i newFile err t w =
     (case openFile t newFile w of
        (Some e, t1, w1) \<Rightarrow>
          (let newFile1 = (if IsNotExist e \<and> newFile = False then True else newFile)
           in if Timeout (config t1) = 0 then Sent (Some e) newFile1 (Some e) t1 w1
              else retry n env (Suc i) newFile1 (Some e) t1 (w1\<lparr>fs := env i (fs w1)\<rparr>))
      | (None, t1, w1) \<Rightarrow>
          (case watchFile t1 newFile w1 of
             (None, t2, w2) \<Rightarrow> Sent None newFile None t2 w2
           | (Some e, t2, w2) \<Rightarrow>
               retry n env (Suc i) newFile (Some e) t2 (w2\<lparr>fs := env i (fs w2)\<rparr>)))"

text \<open>
  \<^verbatim>\<open>openAndWatch\<close> returns what it receives first on the \<^verbatim>\<open>timeout\<close> channel.
  With a timeout other than 0 a second goroutine sleeps and then sends the shared
  \<^verbatim>\<open>err\<close>; \<open>n\<close> is the number of attempts the loop completes before that happens.
  With timeout 0 there is no such goroutine and only the loop can send: \<open>None\<close> says
  that after \<open>n\<close> attempts \<^verbatim>\<open>openAndWatch\<close> has not returned. The timer is taken
  to fire between two attempts; that it can read \<^verbatim>\<open>err\<close> in the middle of an attempt,
  and that the loop goes on after the timer has fired, are not modelled.
\<close>

definition openAndWatch :: "nat \<Rightarrow> (nat \<Rightarrow> fsys \<Rightarrow> fsys) \<Rightarrow> Tail \<Rightarrow> world \<Rightarrow> (error option \<times> Tail \<times> world) option" where
  "openAndWatch n env t w =
     (case retry n env 0 False None t w of
        Sent r newFile err t' w' \<Rightarrow> Some (r, t', w')
      | Looping newFile err t' w' \<Rightarrow>
          if Timeout (config t) \<noteq> 0 then Some (err, t', w') else None)"

definition NewTail :: "nat \<Rightarrow> (nat \<Rightarrow> fsys \<Rightarrow> fsys) \<Rightarrow> string \<Rightarrow> Config \<Rightarrow> world \<Rightarrow> ((error + Tail) \<times> world) option" where
  "NewTail n env fname0 config0 w =
     (let tail = \<lparr>Lines = [], reader = None, watcher = None, fname = fname0, file = None,
                  config = config0\<rparr>
      in case openAndWatch n env tail w of
           None \<Rightarrow> None
         | Some (Some e, t', w') \<Rightarrow> Some (Inl e, w')
         | Some (None, t', w') \<Rightarrow> Some (Inr t', w'))"

definition Close :: "Tail \<Rightarrow> world \<Rightarrow> world" where
  "Close t w =
     (let w1 = (case file t of Some f \<Rightarrow> file_Close w f | None \<Rightarrow> w)
      in case watcher t of Some x \<Rightarrow> watcher_Close w1 x | None \<Rightarrow> w1)"

text \<open>
  One round of the goroutine's \<^verbatim>\<open>for { select { ... } }\<close>. \<open>Exited\<close> is
  \<^verbatim>\<open>log.Fatalln\<close>, which logs and ends the process with \<^verbatim>\<open>os.Exit(1)\<close>;
  \<open>Stopped\<close> is the goroutine leaving its loop; \<open>Blocked\<close> is a re-open that has not
  returned.
\<close>

datatype input =
    Event "32 word"
  | EventsClosed
  | WatcherError "error option"
  | ErrorsClosed

datatype outcome =
    Watching Tail world
  | Stopped Tail world
  | Exited Tail world
  | Blocked

definition handle :: "nat \<Rightarrow> (nat \<Rightarrow> fsys \<Rightarrow> fsys) \<Rightarrow> Tail \<Rightarrow> world \<Rightarrow> input \<Rightarrow> outcome" where
  "handle n env t w inp =
     (case inp of
        EventsClosed \<Rightarrow> Stopped t w
      | ErrorsClosed \<Rightarrow> Stopped t w
      | WatcherError None \<Rightarrow> Watching t w
      | WatcherError (Some e) \<Rightarrow> Watching t (w\<lparr>logged := logged w @ [WARN e]\<rparr>)
      | Event op \<Rightarrow>
          (case (if op AND (Create OR Rename OR Remove) \<noteq> 0
                 then openAndWatch n env t w else Some (None, t, w)) of
             None \<Rightarrow> Blocked
           | Some (Some e, t1, w1) \<Rightarrow> Exited t1 (w1\<lparr>logged := logged w1 @ [FATA e]\<rparr>)
           | Some (None, t1, w1) \<Rightarrow>
               (if op AND Write = Write
                then (case readLines t1 w1 of (t2, w2) \<Rightarrow> Watching t2 w2)
                else Watching t1 w1)))"

section \<open>Other processes\<close>

text \<open>
  What the tests do to the file system around the Tail: \<^verbatim>\<open>createFile\<close> puts a file
  with the given bytes at a path, \<^verbatim>\<open>writeFile\<close> appends to the file now at a path,
  \<^verbatim>\<open>removeFile\<close> unlinks it, \<^verbatim>\<open>renameFile\<close> moves it to another path.
  \<open>elsewhere\<close> lets such a step happen in a world.
\<close>

definition createFile :: "string \<Rightarrow> nat \<Rightarrow> string \<Rightarrow> fsys \<Rightarrow> fsys" where
  "createFile p ino s d = d\<lparr>names := (names d)(p \<mapsto> ino), content := (content d)(ino := s)\<rparr>"

definition writeFile :: "string \<Rightarrow> string \<Rightarrow> fsys \<Rightarrow> fsys" where
  "writeFile p s d =
     (case names d p of
        None \<Rightarrow> d
      | Some ino \<Rightarrow> d\<lparr>content := (content d)(ino := content d ino @ s)\<rparr>)"

definition removeFile :: "string \<Rightarrow> fsys \<Rightarrow> fsys" where
  "removeFile p d = d\<lparr>names := (names d)(p := None)\<rparr>"

definition renameFile :: "string \<Rightarrow> string \<Rightarrow> fsys \<Rightarrow> fsys" where
  "renameFile p q d =
     (case names d p of
        None \<Rightarrow> d
      | Some ino \<Rightarrow> d\<lparr>names := (names d)(p := None, q \<mapsto> ino)\<rparr>)"

definition elsewhere :: "(fsys \<Rightarrow> fsys) \<Rightarrow> world \<Rightarrow> world" where
  "elsewhere f w = w\<lparr>fs := f (fs w)\<rparr>"

text \<open>
  The goroutine's \<^verbatim>\<open>for\<close> loop, on the values its \<^verbatim>\<open>select\<close> receives in turn,
  with the steps of other processes that happen in between. The loop goes on while the
  goroutine is watching. Every value is handled to the end before the next is received:
  the goroutines that share \<^verbatim>\<open>t.watcher\<close> after a re-open are taken to work one
  at a time (\<open>blocks\<close> below lets two of them overlap inside \<^verbatim>\<open>openFile\<close>).
\<close>

datatype step = Receive input | Outside "fsys \<Rightarrow> fsys"

fun run :: "nat \<Rightarrow> (nat \<Rightarrow> fsys \<Rightarrow> fsys) \<Rightarrow> outcome \<Rightarrow> step list \<Rightarrow> outcome" where
  "run n env (Watching t w) (Receive inp # ss) = run n env (handle n env t w inp) ss"
| "run n env (Watching t w) (Outside f # ss) = run n env (Watching t (elsewhere f w)) ss"
| "run n env out ss = out"

text \<open>What a consumer has received on \<^verbatim>\<open>Lines\<close>, and whether the process is gone.\<close>

fun received :: "outcome \<Rightarrow> string list" where
  "received (Watching t w) = Lines t"
| "received (Stopped t w) = Lines t"
| "received (Exited t w) = Lines t"
| "received Blocked = []"

fun exited :: "outcome \<Rightarrow> bool" where
  "exited (Exited t w) = True"
| "exited out = False"

fun logs :: "outcome \<Rightarrow> logmsg list" where
  "logs (Watching t w) = logged w"
| "logs (Stopped t w) = logged w"
| "logs (Exited t w) = logged w"
| "logs Blocked = []"

text \<open>The bytes of the file now at a path.\<close>

fun bytes_at :: "string \<Rightarrow> outcome \<Rightarrow> string" where
  "bytes_at p (Watching t w) = (case names (fs w) p of None \<Rightarrow> [] | Some ino \<Rightarrow> content (fs w) ino)"
| "bytes_at p (Stopped t w) = (case names (fs w) p of None \<Rightarrow> [] | Some ino \<Rightarrow> content (fs w) ino)"
| "bytes_at p (Exited t w) = (case names (fs w) p of None \<Rightarrow> [] | Some ino \<Rightarrow> content (fs w) ino)"
| "bytes_at p Blocked = []"

text \<open>
  The lines of a file as the spec speaks of them: the pieces of its bytes that end at a
  newline, each without its newline, in the order of the file. Bytes after the last
  newline are not a line yet.
\<close>

fun split_lines :: "string \<Rightarrow> string \<Rightarrow> string list" where
  "split_lines acc [] = []"
| "split_lines acc (c # cs) =
     (if c = newline then rev acc # split_lines [] cs else split_lines (c # acc) cs)"

definition spec_lines :: "string \<Rightarrow> string list" where
  "spec_lines bytes = split_lines [] bytes"

text \<open>An empty file system on which every call is allowed, and a process that has opened
  nothing yet.\<close>

definition emptydisk :: fsys where
  "emptydisk = \<lparr>names = Map.empty, content = (\<lambda>ino. []), noaccess = (\<lambda>p. False),
     noseek = (\<lambda>ino. False), nowatch = (\<lambda>p. False), notify_down = False\<rparr>"

definition boot :: "fsys \<Rightarrow> world" where
  "boot d = \<lparr>fs = d, ofiles = Map.empty, nfiles = 0, watchers = Map.empty, nwatchers = 0,
     logged = []\<rparr>"

text \<open>
  The Tail that \<^verbatim>\<open>NewTail\<close> starts from, and a Tail that follows \<^verbatim>\<open>test.log\<close>
  from its first byte, with the world in which it does: file 0 with the given bytes is at
  that path, and the process holds one open file and one watcher on it.
\<close>

definition fresh :: "string \<Rightarrow> int \<Rightarrow> Tail" where
  "fresh p secs = \<lparr>Lines = [], reader = None, watcher = None, fname = p, file = None,
     config = \<lparr>Timeout = secs\<rparr>\<rparr>"

definition following :: "int \<Rightarrow> Tail" where
  "following secs = \<lparr>Lines = [], reader = Some 0, watcher = Some 0, fname = ''test.log'',
     file = Some 0, config = \<lparr>Timeout = secs\<rparr>\<rparr>"

definition opened :: "string \<Rightarrow> world" where
  "opened s = \<lparr>fs = createFile ''test.log'' 0 s emptydisk, ofiles = [0 \<mapsto> (0, 0)],
     nfiles = 1, watchers = [0 \<mapsto> [''test.log'']], nwatchers = 1, logged = []\<rparr>"

text \<open>Four environments of the retry loop: nothing happens; the file is created after the
  first attempt; the notification facility comes up after the first attempt; the file that
  was renamed to \<^verbatim>\<open>test.log_new\<close> is renamed back after the first attempt.\<close>

definition quiet :: "nat \<Rightarrow> fsys \<Rightarrow> fsys" where
  "quiet i d = d"

definition appears :: "string \<Rightarrow> nat \<Rightarrow> string \<Rightarrow> nat \<Rightarrow> fsys \<Rightarrow> fsys" where
  "appears p ino s i d = (if i = 0 then createFile p ino s d else d)"

definition recovers :: "nat \<Rightarrow> fsys \<Rightarrow> fsys" where
  "recovers i d = (if i = 0 then d\<lparr>notify_down := False\<rparr> else d)"

definition returns :: "nat \<Rightarrow> fsys \<Rightarrow> fsys" where
  "returns i d = (if i = 0 then renameFile ''test.log_new'' ''test.log'' d else d)"

section \<open>Observations on the retry loop and on the resources held\<close>

fun flag :: "loop \<Rightarrow> bool" where
  "flag (Sent r newFile err t w) = newFile"
| "flag (Looping newFile err t w) = newFile"

fun tail_of :: "loop \<Rightarrow> Tail" where
  "tail_of (Sent r newFile err t w) = t"
| "tail_of (Looping newFile err t w) = t"

fun world_of :: "loop \<Rightarrow> world" where
  "world_of (Sent r newFile err t w) = w"
| "world_of (Looping newFile err t w) = w"

fun sent :: "loop \<Rightarrow> error option option" where
  "sent (Sent r newFile err t w) = Some r"
| "sent (Looping newFile err t w) = None"

text \<open>The first statement of \<^verbatim>\<open>openFile\<close> and of \<^verbatim>\<open>watchFile\<close>: the world once the
  file, or the watcher, the Tail holds has been closed.\<close>

definition closed_file :: "Tail \<Rightarrow> world \<Rightarrow> world" where
  "closed_file t w = (case file t of Some f \<Rightarrow> file_Close w f | None \<Rightarrow> w)"

definition closed_watcher :: "Tail \<Rightarrow> world \<Rightarrow> world" where
  "closed_watcher t w = (case watcher t of Some x \<Rightarrow> watcher_Close w x | None \<Rightarrow> w)"

text \<open>
  The Tail holds every live resource of the process: an open file is the one in its
  \<^verbatim>\<open>file\<close> field, an open watcher the one in its \<^verbatim>\<open>watcher\<close> field, and both
  were created before now.
\<close>

definition owned :: "Tail \<Rightarrow> world \<Rightarrow> bool" where
  "owned t w =
     ((\<forall>f. ofiles w f \<noteq> None \<longrightarrow> file t = Some f) \<and>
      (\<forall>x. watchers w x \<noteq> None \<longrightarrow> watcher t = Some x) \<and>
      (\<forall>f. file t = Some f \<longrightarrow> f < nfiles w) \<and>
      (\<forall>x. watcher t = Some x \<longrightarrow> x < nwatchers w))"

fun owned_out :: "outcome \<Rightarrow> bool" where
  "owned_out (Watching t w) = owned t w"
| "owned_out (Stopped t w) = owned t w"
| "owned_out (Exited t w) = owned t w"
| "owned_out Blocked = True"

text \<open>
  Two goroutines in \<^verbatim>\<open>openFile\<close> on one Tail. After a successful re-open the
  goroutine that called \<^verbatim>\<open>openAndWatch\<close> goes on receiving from \<^verbatim>\<open>t.watcher\<close>
  beside the goroutine \<^verbatim>\<open>watchFile\<close> has just started, so two disruptive events
  can put two retry loops to work at once. \<^verbatim>\<open>openFile\<close> is cut in two blocks, each
  run without interruption: \<open>CloseOld\<close> is its first statement (close the file the
  Tail holds), \<open>OpenNew\<close> is the rest (open, seek, attach the reader). \<open>blocks\<close> runs
  a list of such blocks in the order a scheduler picked among the goroutines.
\<close>

definition openFile_rest :: "Tail \<Rightarrow> bool \<Rightarrow> world \<Rightarrow> error option \<times> Tail \<times> world" where
  "openFile_rest t newFile w1 =
     (case os_Open w1 (fname t) of
        (Inl e, w2) \<Rightarrow> (Some e, t\<lparr>file := None\<rparr>, w2)
      | (Inr f, w2) \<Rightarrow>
          (let t1 = t\<lparr>file := Some f\<rparr>;
               (err, w3) = (if \<not> newFile
                            then (case Seek w2 f 0 2 of ((n, e), w') \<Rightarrow> (e, w'))
                            else (None, w2))
           in case err of
                Some e \<Rightarrow> (Some e, t1, w3)
              | None \<Rightarrow> (None, t1\<lparr>reader := Some f\<rparr>, w3)))"

datatype block = CloseOld | OpenNew bool

fun blocks :: "block list \<Rightarrow> Tail \<Rightarrow> world \<Rightarrow> Tail \<times> world" where
  "blocks [] t w = (t, w)"
| "blocks (CloseOld # bs) t w = blocks bs t (closed_file t w)"
| "blocks (OpenNew newFile # bs) t w =
     (case openFile_rest t newFile w of (err, t1, w1) \<Rightarrow> blocks bs t1 w1)"

text \<open>The reader, when there is one, wraps a file that is open.\<close>

definition attached :: "Tail \<Rightarrow> world \<Rightarrow> bool" where
  "attached t w = (case reader t of None \<Rightarrow> True | Some r \<Rightarrow> ofiles w r \<noteq> None)"


section \<open>Reading lines\<close>

lemmas world_defs = os_Open_def file_Close_def Seek_def ReadString_def TrimRight_def
  NewWatcher_def watcher_Close_def watcher_Add_def

lemmas tail_defs = readLines_def openFile_def watchFile_def openAndWatch_def NewTail_def
  Close_def handle_def

lemmas fixture_defs = createFile_def writeFile_def removeFile_def elsewhere_def emptydisk_def
  boot_def quiet_def appears_def recovers_def fresh_def following_def opened_def
  renameFile_def returns_def

lemmas op_defs = Create_def Write_def Remove_def Rename_def Chmod_def

lemma TrimRight_line: "newline \<notin> set l \<Longrightarrow> TrimRight (l @ [newline]) [newline] = l"
proof -
  assume "newline \<notin> set l"
  then have "dropWhile (\<lambda>c. c = newline) (rev l) = rev l"
    by (cases "rev l") (auto simp: dropWhile_eq_self_iff hd_rev last_in_set)
  then show ?thesis by (simp add: TrimRight_def)
qed

lemma takeWhile_line:
  "newline \<notin> set l \<Longrightarrow> takeWhile (\<lambda>c. c \<noteq> newline) (l @ newline # rest) = l"
  by (auto simp: takeWhile_tail takeWhile_eq_all_conv)

lemma readLines_line:
  assumes "reader t = Some r" and "ofiles w r = Some (ino, pos)"
    and "drop pos (content (fs w) ino) = l @ newline # rest" and "newline \<notin> set l"
  shows "readLines t w =
    (t\<lparr>Lines := Lines t @ [l]\<rparr>, w\<lparr>ofiles := (ofiles w)(r \<mapsto> (ino, pos + length l + 1))\<rparr>)"
  using assms by (simp add: readLines_def ReadString_def TrimRight_line takeWhile_line)

lemma readLines_partial:
  assumes "reader t = Some r" and "ofiles w r = Some (ino, pos)"
    and "newline \<notin> set (drop pos (content (fs w) ino))"
  shows "readLines t w =
    (t, w\<lparr>ofiles := (ofiles w)(r \<mapsto> (ino, pos + length (drop pos (content (fs w) ino))))\<rparr>)"
  using assms by (simp add: readLines_def ReadString_def)

lemma handle_Write:
  "handle n env t w (Event Write) = (case readLines t w of (t2, w2) \<Rightarrow> Watching t2 w2)"
  by (simp add: handle_def op_defs)




section \<open>What openFile, watchFile and the retry loop do\<close>

lemma closed_file_simps:
  "fs (closed_file t w) = fs w" "nfiles (closed_file t w) = nfiles w"
  "watchers (closed_file t w) = watchers w" "nwatchers (closed_file t w) = nwatchers w"
  "logged (closed_file t w) = logged w"
  "ofiles (closed_file t w) f = (if file t = Some f then None else ofiles w f)"
  by (auto simp: closed_file_def file_Close_def split: option.splits)

lemma closed_watcher_simps:
  "fs (closed_watcher t w) = fs w" "nfiles (closed_watcher t w) = nfiles w"
  "ofiles (closed_watcher t w) = ofiles w" "nwatchers (closed_watcher t w) = nwatchers w"
  "logged (closed_watcher t w) = logged w"
  "watchers (closed_watcher t w) x = (if watcher t = Some x then None else watchers w x)"
  by (auto simp: closed_watcher_def watcher_Close_def split: option.splits)

lemma openFile_eq:
  "openFile t b w =
     (let w1 = closed_file t w
      in case names (fs w) (fname t) of
           None \<Rightarrow> (Some ErrNotExist, t\<lparr>file := None\<rparr>, w1)
         | Some ino \<Rightarrow>
             if noaccess (fs w) (fname t) then (Some ErrPermission, t\<lparr>file := None\<rparr>, w1)
             else if b then
               (None, t\<lparr>file := Some (nfiles w), reader := Some (nfiles w)\<rparr>,
                w1\<lparr>ofiles := (ofiles w1)(nfiles w \<mapsto> (ino, 0)), nfiles := Suc (nfiles w)\<rparr>)
             else if noseek (fs w) ino then
               (Some ErrSeek, t\<lparr>file := Some (nfiles w)\<rparr>,
                w1\<lparr>ofiles := (ofiles w1)(nfiles w \<mapsto> (ino, 0)), nfiles := Suc (nfiles w)\<rparr>)
             else
               (None, t\<lparr>file := Some (nfiles w), reader := Some (nfiles w)\<rparr>,
                w1\<lparr>ofiles := (ofiles w1)(nfiles w \<mapsto> (ino, length (content (fs w) ino))),
                   nfiles := Suc (nfiles w)\<rparr>))"
  by (cases "file t")
     (simp_all add: openFile_def closed_file_def os_Open_def file_Close_def Seek_def Let_def
        split: option.splits)

lemma watchFile_eq:
  "watchFile t b w =
     (let w1 = closed_watcher t w
      in if notify_down (fs w) then (Some ErrNewWatcher, t\<lparr>watcher := None\<rparr>, w1)
         else
           (let t1 = t\<lparr>watcher := Some (nwatchers w)\<rparr>
            in case names (fs w) (fname t) of
                 None \<Rightarrow>
                   (Some ErrNotExist, t1,
                    w1\<lparr>watchers := (watchers w1)(nwatchers w \<mapsto> []),
                       nwatchers := Suc (nwatchers w)\<rparr>)
               | Some ino \<Rightarrow>
                   if nowatch (fs w) (fname t) then
                     (Some ErrWatch, t1,
                      w1\<lparr>watchers := (watchers w1)(nwatchers w \<mapsto> []),
                         nwatchers := Suc (nwatchers w)\<rparr>)
                   else
                     (let w3 = w1\<lparr>nwatchers := Suc (nwatchers w),
                                  watchers := (watchers w1)(nwatchers w \<mapsto> [fname t])\<rparr>
                      in if b then (None, readLines t1 w3) else (None, t1, w3))))"
  by (cases "watcher t")
     (simp_all add: watchFile_def closed_watcher_def NewWatcher_def watcher_Close_def
        watcher_Add_def Let_def split: option.splits prod.splits)


lemma openFile_frame:
  "Lines (fst (snd (openFile t b w))) = Lines t"
  "fname (fst (snd (openFile t b w))) = fname t"
  "config (fst (snd (openFile t b w))) = config t"
  "watcher (fst (snd (openFile t b w))) = watcher t"
  "fs (snd (snd (openFile t b w))) = fs w"
  "watchers (snd (snd (openFile t b w))) = watchers w"
  "nwatchers (snd (snd (openFile t b w))) = nwatchers w"
  "logged (snd (snd (openFile t b w))) = logged w"
  by (simp_all add: openFile_eq closed_file_simps Let_def split: option.splits)

lemma readLines_frame:
  "fname (fst (readLines t w)) = fname t"
  "config (fst (readLines t w)) = config t"
  "file (fst (readLines t w)) = file t"
  "reader (fst (readLines t w)) = reader t"
  "watcher (fst (readLines t w)) = watcher t"
  "fs (snd (readLines t w)) = fs w"
  "watchers (snd (readLines t w)) = watchers w"
  "nwatchers (snd (readLines t w)) = nwatchers w"
  "nfiles (snd (readLines t w)) = nfiles w"
  "logged (snd (readLines t w)) = logged w"
  "(ofiles (snd (readLines t w)) f = None) = (ofiles w f = None)"
  by (simp_all add: readLines_def ReadString_def Let_def split: option.splits prod.splits)

lemma watchFile_frame:
  "fname (fst (snd (watchFile t b w))) = fname t"
  "config (fst (snd (watchFile t b w))) = config t"
  "file (fst (snd (watchFile t b w))) = file t"
  "reader (fst (snd (watchFile t b w))) = reader t"
  "fs (snd (snd (watchFile t b w))) = fs w"
  "nfiles (snd (snd (watchFile t b w))) = nfiles w"
  "logged (snd (snd (watchFile t b w))) = logged w"
  "(ofiles (snd (snd (watchFile t b w))) f = None) = (ofiles w f = None)"
  by (simp_all add: watchFile_eq closed_watcher_simps readLines_frame Let_def
      split: option.splits)

lemma watchFile_failed:
  "fst (watchFile t b w) \<noteq> None \<Longrightarrow> Lines (fst (snd (watchFile t b w))) = Lines t"
  "fst (watchFile t b w) \<noteq> None \<Longrightarrow> ofiles (snd (snd (watchFile t b w))) = ofiles w"
  by (simp_all add: watchFile_eq closed_watcher_simps Let_def split: option.splits if_splits)

text \<open>A successful \<^verbatim>\<open>openFile\<close> attaches the reader to the handle it has just opened;
  the handle stands at the end of the file when the flag is false and at offset 0 when it
  is true.\<close>

lemma openFile_success:
  assumes "openFile t b w = (None, t1, w1)"
  shows "\<exists>ino. names (fs w) (fname t) = Some ino
           \<and> file t1 = Some (nfiles w) \<and> reader t1 = Some (nfiles w)
           \<and> ofiles w1 (nfiles w)
               = Some (ino, if b then 0 else length (content (fs w) ino))"
  using assms
  by (auto simp: openFile_eq closed_file_simps Let_def split: option.splits if_splits)

text \<open>\<^verbatim>\<open>Close\<close> leaves no file and no watcher open when the Tail held them all.\<close>

lemma Close_releases:
  assumes "owned t w"
  shows "ofiles (Close t w) f = None" and "watchers (Close t w) x = None"
proof -
  have c: "Close t w = closed_watcher t (closed_file t w)"
    by (simp add: Close_def closed_watcher_def closed_file_def Let_def)
  have h: "ofiles w f = None \<or> file t = Some f" "watchers w x = None \<or> watcher t = Some x"
    using assms unfolding owned_def by blast+
  show "ofiles (Close t w) f = None"
    unfolding c using h(1) by (auto simp: closed_watcher_simps closed_file_simps)
  show "watchers (Close t w) x = None"
    unfolding c using h(2) by (auto simp: closed_watcher_simps closed_file_simps)
qed

lemma retry_Suc_cases [consumes 0, case_names open_fatal open_retry watch_ok watch_retry]:
  obtains
    e t1 w1 where "openFile t b w = (Some e, t1, w1)" and "Timeout (config t) = 0"
      and "retry (Suc n) env i b err t w = Sent (Some e) (b \<or> IsNotExist e) (Some e) t1 w1"
  | e t1 w1 where "openFile t b w = (Some e, t1, w1)" and "Timeout (config t) \<noteq> 0"
      and "retry (Suc n) env i b err t w =
             retry n env (Suc i) (b \<or> IsNotExist e) (Some e) t1 (w1\<lparr>fs := env i (fs w1)\<rparr>)"
  | t1 w1 t2 w2 where "openFile t b w = (None, t1, w1)" and "watchFile t1 b w1 = (None, t2, w2)"
      and "retry (Suc n) env i b err t w = Sent None b None t2 w2"
  | e t1 w1 t2 w2 where "openFile t b w = (None, t1, w1)"
      and "watchFile t1 b w1 = (Some e, t2, w2)"
      and "retry (Suc n) env i b err t w =
             retry n env (Suc i) b (Some e) t2 (w2\<lparr>fs := env i (fs w2)\<rparr>)"
proof -
  obtain r1 t1 w1 where o: "openFile t b w = (r1, t1, w1)"
    by (cases "openFile t b w")
  have c: "config t1 = config t"
    using openFile_frame(3)[of t b w] o by simp
  show thesis
  proof (cases r1)
    case (Some e)
    have f: "(if IsNotExist e \<and> b = False then True else b) = (b \<or> IsNotExist e)"
      by auto
    show thesis
    proof (cases "Timeout (config t) = 0")
      case True
      then show thesis using that(1)[of e t1 w1] o Some c f by simp
    next
      case False
      then show thesis using that(2)[of e t1 w1] o Some c f by simp
    qed
  next
    case None
    obtain r2 t2 w2 where wf: "watchFile t1 b w1 = (r2, t2, w2)"
      by (cases "watchFile t1 b w1")
    show thesis
    proof (cases r2)
      case None': None
      show thesis using that(3)[of t1 w1 t2 w2] o None wf None' by simp
    next
      case (Some e)
      show thesis using that(4)[of t1 w1 e t2 w2] o None wf Some by simp
    qed
  qed
qed

lemma retry_flag: "b \<Longrightarrow> flag (retry n env i b err t w)"
proof (induction n arbitrary: i err t w)
  case 0
  then show ?case by simp
next
  case (Suc n)
  show ?case
  proof (cases rule: retry_Suc_cases[of t b w n env i err])
    case (open_fatal e t1 w1)
    then show ?thesis using Suc.prems by simp
  next
    case (open_retry e t1 w1)
    then show ?thesis using Suc.prems Suc.IH by simp
  next
    case (watch_ok t1 w1 t2 w2)
    then show ?thesis using Suc.prems by simp
  next
    case (watch_retry e t1 w1 t2 w2)
    then show ?thesis using Suc.prems Suc.IH by simp
  qed
qed


declare retry.simps(2) [simp del]

lemma owned_env: "owned t (w\<lparr>fs := d\<rparr>) = owned t w"
  by (simp add: owned_def)

lemma openFile_ofiles:
  "ofiles (snd (snd (openFile t b w))) f \<noteq> None \<Longrightarrow>
     (file (fst (snd (openFile t b w))) = Some f \<and> f = nfiles w)
     \<or> (ofiles w f \<noteq> None \<and> file t \<noteq> Some f)"
  by (simp add: openFile_eq closed_file_simps Let_def split: option.splits if_splits)

lemma openFile_fresh:
  "nfiles w \<le> nfiles (snd (snd (openFile t b w)))"
  "file (fst (snd (openFile t b w))) = Some g \<Longrightarrow> g = nfiles w \<and> g < nfiles (snd (snd (openFile t b w)))"
  by (simp_all add: openFile_eq closed_file_simps Let_def split: option.splits if_splits)

lemma watchFile_watchers:
  "watchers (snd (snd (watchFile t b w))) x \<noteq> None \<Longrightarrow>
     (watcher (fst (snd (watchFile t b w))) = Some x \<and> x = nwatchers w)
     \<or> (watchers w x \<noteq> None \<and> watcher t \<noteq> Some x)"
  by (simp add: watchFile_eq closed_watcher_simps readLines_frame Let_def
      split: option.splits if_splits)

lemma watchFile_fresh:
  "nwatchers w \<le> nwatchers (snd (snd (watchFile t b w)))"
  "watcher (fst (snd (watchFile t b w))) = Some x \<Longrightarrow>
     x = nwatchers w \<and> x < nwatchers (snd (snd (watchFile t b w)))"
  "fst (watchFile t b w) = None \<Longrightarrow> watcher (fst (snd (watchFile t b w))) = Some (nwatchers w)"
  by (simp_all add: watchFile_eq closed_watcher_simps readLines_frame Let_def
      split: option.splits if_splits)

lemma openFile_owned:
  assumes "owned t w"
  shows "owned (fst (snd (openFile t b w))) (snd (snd (openFile t b w)))"
  unfolding owned_def
proof (intro conjI allI impI)
  fix f assume "ofiles (snd (snd (openFile t b w))) f \<noteq> None"
  then show "file (fst (snd (openFile t b w))) = Some f"
    using openFile_ofiles[of t b w f] assms by (auto simp: owned_def)
next
  fix x assume "watchers (snd (snd (openFile t b w))) x \<noteq> None"
  then show "watcher (fst (snd (openFile t b w))) = Some x"
    using assms by (simp add: openFile_frame owned_def)
next
  fix f assume "file (fst (snd (openFile t b w))) = Some f"
  then show "f < nfiles (snd (snd (openFile t b w)))"
    using openFile_fresh(2)[of t b w f] by simp
next
  fix x assume "watcher (fst (snd (openFile t b w))) = Some x"
  then show "x < nwatchers (snd (snd (openFile t b w)))"
    using assms by (simp add: openFile_frame owned_def)
qed

lemma watchFile_owned:
  assumes "owned t w"
  shows "owned (fst (snd (watchFile t b w))) (snd (snd (watchFile t b w)))"
  unfolding owned_def
proof (intro conjI allI impI)
  fix f assume "ofiles (snd (snd (watchFile t b w))) f \<noteq> None"
  then show "file (fst (snd (watchFile t b w))) = Some f"
    using assms by (simp add: watchFile_frame owned_def)
next
  fix x assume "watchers (snd (snd (watchFile t b w))) x \<noteq> None"
  then show "watcher (fst (snd (watchFile t b w))) = Some x"
    using watchFile_watchers[of t b w x] assms by (auto simp: owned_def)
next
  fix f assume "file (fst (snd (watchFile t b w))) = Some f"
  then show "f < nfiles (snd (snd (watchFile t b w)))"
    using assms by (simp add: watchFile_frame owned_def)
next
  fix x assume "watcher (fst (snd (watchFile t b w))) = Some x"
  then show "x < nwatchers (snd (snd (watchFile t b w)))"
    using watchFile_fresh(2)[of t b w x] by simp
qed

lemma retry_owned:
  "owned t w \<Longrightarrow> owned (tail_of (retry n env i b err t w)) (world_of (retry n env i b err t w))"
proof (induction n arbitrary: i b err t w)
  case 0
  then show ?case by simp
next
  case (Suc n)
  have o: "owned (fst (snd (openFile t b w))) (snd (snd (openFile t b w)))"
    using Suc.prems by (rule openFile_owned)
  show ?case
  proof (cases rule: retry_Suc_cases[of t b w n env i err])
    case (open_fatal e t1 w1)
    then show ?thesis using o by simp
  next
    case (open_retry e t1 w1)
    then have "owned t1 (w1\<lparr>fs := env i (fs w1)\<rparr>)" using o by (simp add: owned_env)
    then show ?thesis using open_retry Suc.IH by simp
  next
    case (watch_ok t1 w1 t2 w2)
    then have "owned t1 w1" using o by simp
    then have "owned t2 w2" using watchFile_owned[of t1 w1 b] watch_ok by simp
    then show ?thesis using watch_ok by simp
  next
    case (watch_retry e t1 w1 t2 w2)
    then have "owned t1 w1" using o by simp
    then have "owned t2 w2" using watchFile_owned[of t1 w1 b] watch_retry by simp
    then have "owned t2 (w2\<lparr>fs := env i (fs w2)\<rparr>)" by (simp add: owned_env)
    then show ?thesis using watch_retry Suc.IH by simp
  qed
qed

lemma retry_file_fresh:
  "file (tail_of (retry n env i b err t w)) = Some g \<Longrightarrow> n = 0 \<and> file t = Some g \<or> nfiles w \<le> g"
proof (induction n arbitrary: i b err t w)
  case 0
  then show ?case by simp
next
  case (Suc n)
  have m: "nfiles w \<le> nfiles (snd (snd (openFile t b w)))"
    by (rule openFile_fresh)
  have f: "\<And>g. file (fst (snd (openFile t b w))) = Some g \<Longrightarrow> g = nfiles w"
    using openFile_fresh(2)[of t b w] by simp
  show ?case
  proof (cases rule: retry_Suc_cases[of t b w n env i err])
    case (open_fatal e t1 w1)
    then show ?thesis using Suc.prems f[of g] by simp
  next
    case (open_retry e t1 w1)
    let ?w = "w1\<lparr>fs := env i (fs w1)\<rparr>"
    have "n = 0 \<and> file t1 = Some g \<or> nfiles ?w \<le> g"
      by (rule Suc.IH[where t = t1 and w = ?w]) (use open_retry Suc.prems in simp)
    then show ?thesis using open_retry m f[of g] by auto
  next
    case (watch_ok t1 w1 t2 w2)
    then have "file t2 = file t1" using watchFile_frame(3)[of t1 b w1] by simp
    then show ?thesis using watch_ok Suc.prems f[of g] by simp
  next
    case (watch_retry e t1 w1 t2 w2)
    let ?w = "w2\<lparr>fs := env i (fs w2)\<rparr>"
    from watch_retry have e: "file t2 = file t1" "nfiles w2 = nfiles w1"
      using watchFile_frame(3,6)[of t1 b w1] by simp_all
    have "n = 0 \<and> file t2 = Some g \<or> nfiles ?w \<le> g"
      by (rule Suc.IH[where t = t2 and w = ?w]) (use watch_retry Suc.prems in simp)
    then show ?thesis using watch_retry m f[of g] e by auto
  qed
qed

lemma retry_watcher_fresh:
  "sent (retry n env i b err t w) = Some None \<Longrightarrow>
     \<exists>x. watcher (tail_of (retry n env i b err t w)) = Some x \<and> nwatchers w \<le> x"
proof (induction n arbitrary: i b err t w)
  case 0
  then show ?case by simp
next
  case (Suc n)
  have o: "nwatchers (snd (snd (openFile t b w))) = nwatchers w"
    by (rule openFile_frame)
  show ?case
  proof (cases rule: retry_Suc_cases[of t b w n env i err])
    case (open_fatal e t1 w1)
    then show ?thesis using Suc.prems by simp
  next
    case (open_retry e t1 w1)
    let ?w = "w1\<lparr>fs := env i (fs w1)\<rparr>"
    let ?r = "retry n env (Suc i) (b \<or> IsNotExist e) (Some e) t1 ?w"
    have "\<exists>x. watcher (tail_of ?r) = Some x \<and> nwatchers ?w \<le> x"
      by (rule Suc.IH) (use open_retry Suc.prems in simp)
    then show ?thesis using open_retry o by simp
  next
    case (watch_ok t1 w1 t2 w2)
    then show ?thesis using o watchFile_fresh(3)[of t1 b w1] by simp
  next
    case (watch_retry e t1 w1 t2 w2)
    let ?w = "w2\<lparr>fs := env i (fs w2)\<rparr>"
    let ?r = "retry n env (Suc i) b (Some e) t2 ?w"
    have "\<exists>x. watcher (tail_of ?r) = Some x \<and> nwatchers ?w \<le> x"
      by (rule Suc.IH) (use watch_retry Suc.prems in simp)
    moreover have "nwatchers w \<le> nwatchers w2"
      using watch_retry o watchFile_fresh(1)[of w1 t1 b] by simp
    ultimately show ?thesis using watch_retry by auto
  qed
qed

lemma retry_Lines_failed:
  "sent (retry n env i b err t w) \<noteq> Some None \<Longrightarrow> Lines (tail_of (retry n env i b err t w)) = Lines t"
proof (induction n arbitrary: i b err t w)
  case 0
  then show ?case by simp
next
  case (Suc n)
  have o: "Lines (fst (snd (openFile t b w))) = Lines t"
    by (rule openFile_frame)
  show ?case
  proof (cases rule: retry_Suc_cases[of t b w n env i err])
    case (open_fatal e t1 w1)
    then show ?thesis using o by simp
  next
    case (open_retry e t1 w1)
    let ?w = "w1\<lparr>fs := env i (fs w1)\<rparr>"
    let ?r = "retry n env (Suc i) (b \<or> IsNotExist e) (Some e) t1 ?w"
    have "Lines (tail_of ?r) = Lines t1"
      by (rule Suc.IH) (use open_retry Suc.prems in simp)
    then show ?thesis using open_retry o by simp
  next
    case (watch_ok t1 w1 t2 w2)
    then show ?thesis using Suc.prems by simp
  next
    case (watch_retry e t1 w1 t2 w2)
    let ?w = "w2\<lparr>fs := env i (fs w2)\<rparr>"
    let ?r = "retry n env (Suc i) b (Some e) t2 ?w"
    have "Lines (tail_of ?r) = Lines t2"
      by (rule Suc.IH) (use watch_retry Suc.prems in simp)
    moreover have "Lines t2 = Lines t1"
      using watch_retry watchFile_failed(1)[of t1 b w1] by simp
    ultimately show ?thesis using watch_retry o by simp
  qed
qed

lemma retry_Looping_err:
  "retry n env i b err t w = Looping b' err' t' w' \<Longrightarrow> 0 < n \<Longrightarrow> err' \<noteq> None"
proof (induction n arbitrary: i b err t w)
  case 0
  then show ?case by simp
next
  case (Suc n)
  show ?case
  proof (cases rule: retry_Suc_cases[of t b w n env i err])
    case (open_fatal e t1 w1)
    then show ?thesis using Suc.prems by simp
  next
    case (open_retry e t1 w1)
    then show ?thesis using Suc.prems Suc.IH by (cases n) auto
  next
    case (watch_ok t1 w1 t2 w2)
    then show ?thesis using Suc.prems by simp
  next
    case (watch_retry e t1 w1 t2 w2)
    then show ?thesis using Suc.prems Suc.IH by (cases n) auto
  qed
qed


lemma handle_Write_emits:
  assumes "reader t = Some r" and "ofiles w r = Some (ino, pos)"
  shows "received (handle n env t w (Event Write)) =
     (if newline \<in> set (drop pos (content (fs w) ino))
      then Lines t @ [takeWhile (\<lambda>c. c \<noteq> newline) (drop pos (content (fs w) ino))]
      else Lines t)"
proof (cases "newline \<in> set (drop pos (content (fs w) ino))")
  case True
  then obtain l rest where d: "drop pos (content (fs w) ino) = l @ newline # rest"
    and nl: "newline \<notin> set l"
    by (auto dest: split_list_first)
  have "readLines t w =
    (t\<lparr>Lines := Lines t @ [l]\<rparr>, w\<lparr>ofiles := (ofiles w)(r \<mapsto> (ino, pos + length l + 1))\<rparr>)"
    using assms d nl by (rule readLines_line)
  then show ?thesis using d nl by (simp add: handle_Write takeWhile_line)
next
  case False
  then show ?thesis using assms by (simp add: handle_Write readLines_partial)
qed

section \<open>Resources held\<close>

lemma openAndWatch_cases:
  assumes "openAndWatch n env t w = Some (r, t', w')"
  shows "t' = tail_of (retry n env 0 False None t w)"
    and "w' = world_of (retry n env 0 False None t w)"
    and "sent (retry n env 0 False None t w) = Some r
         \<or> sent (retry n env 0 False None t w) = None \<and> Timeout (config t) \<noteq> 0
             \<and> (0 < n \<longrightarrow> r \<noteq> None)"
  using assms retry_Looping_err[of n env 0 False None t w]
  by (auto simp: openAndWatch_def split: loop.splits if_splits)

lemma readLines_owned: "owned t w \<Longrightarrow> owned (fst (readLines t w)) (snd (readLines t w))"
  by (simp add: owned_def readLines_frame)

lemma owned_logged: "owned t (w\<lparr>logged := l\<rparr>) = owned t w"
  by (simp add: owned_def)

lemma openAndWatch_owned:
  assumes "owned t w" and "openAndWatch n env t w = Some (r, t', w')"
  shows "owned t' w'"
  using retry_owned[OF assms(1), of n env 0 False None] openAndWatch_cases(1,2)[OF assms(2)]
  by simp

lemma handle_owned: "owned t w \<Longrightarrow> owned_out (handle n env t w inp)"
proof (cases inp)
  case (Event op)
  assume o: "owned t w"
  show ?thesis
  proof (cases "op AND (Create OR Rename OR Remove) \<noteq> 0")
    case True
    show ?thesis
    proof (cases "openAndWatch n env t w")
      case None
      then show ?thesis using Event True by (simp add: handle_def)
    next
      case (Some a)
      obtain r t1 w1 where a: "a = (r, t1, w1)" by (cases a)
      have o1: "owned t1 w1" using o Some a by (auto intro: openAndWatch_owned)
      show ?thesis using Event True Some a o1 readLines_owned[OF o1]
        by (cases r; cases "readLines t1 w1") (simp_all add: handle_def owned_logged)
    qed
  next
    case False
    then show ?thesis using Event o readLines_owned[OF o]
      by (cases "readLines t w") (simp_all add: handle_def)
  qed
next
  case EventsClosed
  then show "owned t w \<Longrightarrow> ?thesis" by (simp add: handle_def)
next
  case (WatcherError e)
  then show "owned t w \<Longrightarrow> ?thesis" by (cases e) (simp_all add: handle_def owned_logged)
next
  case ErrorsClosed
  then show "owned t w \<Longrightarrow> ?thesis" by (simp add: handle_def)
qed

lemma run_owned: "owned_out out \<Longrightarrow> owned_out (run n env out ss)"
proof (induction ss arbitrary: out)
  case Nil
  then show ?case by (cases out) simp_all
next
  case (Cons s ss)
  show ?case
  proof (cases out)
    case (Watching t w)
    then have o: "owned t w" using Cons.prems by simp
    show ?thesis
    proof (cases s)
      case (Receive inp)
      then show ?thesis using Watching Cons.IH[OF handle_owned[OF o, of n env inp]] by simp
    next
      case (Outside f)
      have "owned_out (Watching t (elsewhere f w))"
        using o by (simp add: elsewhere_def owned_env)
      then show ?thesis using Watching Outside Cons.IH by simp
    qed
  qed (use Cons.prems in simp_all)
qed

text \<open>
  While the steps of a Follower are taken one after another, it holds at most one file and
  one watcher. Started in a state in which the Tail holds every live resource of the
  process, it stays in such a state whatever its goroutine receives and whatever other
  processes do. After a run of \<^verbatim>\<open>openAndWatch\<close> at most one file and one watcher are
  open; once it has made an attempt the file held before is closed, and when it ends in
  success the watcher held before is closed too.
\<close>

lemma one_live_handle_and_watcher:
  assumes "owned t w"
  shows "owned_out (run m env (Watching t w) ss)
    \<and> (openAndWatch n env t w = Some (r, t', w') \<longrightarrow>
         owned t' w'
         \<and> (\<forall>f g. ofiles w' f \<noteq> None \<and> ofiles w' g \<noteq> None \<longrightarrow> f = g)
         \<and> (\<forall>x y. watchers w' x \<noteq> None \<and> watchers w' y \<noteq> None \<longrightarrow> x = y)
         \<and> (0 < n \<longrightarrow> (\<forall>f. file t = Some f \<longrightarrow> ofiles w' f = None))
         \<and> (0 < n \<and> r = None \<longrightarrow> (\<forall>x. watcher t = Some x \<longrightarrow> watchers w' x = None)))"
proof (intro conjI impI)
  show "owned_out (run m env (Watching t w) ss)"
    using assms by (simp add: run_owned)
next
  assume a: "openAndWatch n env t w = Some (r, t', w')"
  let ?r = "retry n env 0 False None t w"
  have t': "t' = tail_of ?r" and w': "w' = world_of ?r"
    using openAndWatch_cases(1,2)[OF a] by simp_all
  show o': "owned t' w'" using assms a by (rule openAndWatch_owned)
  show "\<forall>f g. ofiles w' f \<noteq> None \<and> ofiles w' g \<noteq> None \<longrightarrow> f = g"
  proof (intro allI impI)
    fix f g assume "ofiles w' f \<noteq> None \<and> ofiles w' g \<noteq> None"
    then have "file t' = Some f" and "file t' = Some g"
      using o' by (simp_all add: owned_def)
    then show "f = g" by simp
  qed
  show "\<forall>x y. watchers w' x \<noteq> None \<and> watchers w' y \<noteq> None \<longrightarrow> x = y"
  proof (intro allI impI)
    fix x y assume "watchers w' x \<noteq> None \<and> watchers w' y \<noteq> None"
    then have "watcher t' = Some x" and "watcher t' = Some y"
      using o' by (simp_all add: owned_def)
    then show "x = y" by simp
  qed
  {
    assume n: "0 < n"
    show "\<forall>f. file t = Some f \<longrightarrow> ofiles w' f = None"
    proof (intro allI impI, rule ccontr)
      fix f assume f: "file t = Some f" and "ofiles w' f \<noteq> None"
      then have "file t' = Some f" using o' by (simp add: owned_def)
      then have "nfiles w \<le> f" using retry_file_fresh[of n env 0 False None t w f] t' n by simp
      moreover have "f < nfiles w" using assms f by (simp add: owned_def)
      ultimately show False by simp
    qed
  }
  {
    assume n: "0 < n \<and> r = None"
    then have s: "sent ?r = Some None" using openAndWatch_cases(3)[OF a] by auto
    show "\<forall>x. watcher t = Some x \<longrightarrow> watchers w' x = None"
    proof (intro allI impI, rule ccontr)
      fix x assume x: "watcher t = Some x" and "watchers w' x \<noteq> None"
      then have "watcher t' = Some x" using o' by (simp add: owned_def)
      then have "nwatchers w \<le> x" using retry_watcher_fresh[OF s] t' by simp
      moreover have "x < nwatchers w" using assms x by (simp add: owned_def)
      ultimately show False by simp
    qed
  }
qed


lemma one_live_handle_and_watcher_witness:
  "owned (following 10) (opened [])
   \<and> owned_out (run 1 quiet (Watching (following 10) (opened [])) [Receive (Event Rename)])
   \<and> (\<exists>t' w'. openAndWatch 1 quiet (following 10) (opened []) = Some (None, t', w')
         \<and> file t' = Some 1 \<and> watcher t' = Some 1
         \<and> ofiles w' 0 = None \<and> watchers w' 0 = None \<and> owned t' w')"
proof -
  have o: "owned (following 10) (opened [])"
    by (simp add: owned_def fixture_defs)
  have "\<exists>t' w'. openAndWatch 1 quiet (following 10) (opened []) = Some (None, t', w')
      \<and> file t' = Some 1 \<and> watcher t' = Some 1"
    by (simp add: tail_defs world_defs fixture_defs retry.simps)
  then obtain t' w' where a: "openAndWatch 1 quiet (following 10) (opened []) = Some (None, t', w')"
    and f: "file t' = Some 1" "watcher t' = Some 1"
    by blast
  show ?thesis
    using one_live_handle_and_watcher[OF o, of 1 quiet "[Receive (Event Rename)]" 1 None t' w']
      o a f
    by (simp add: fixture_defs)
qed


lemmas eval_defs = tail_defs world_defs fixture_defs op_defs retry.simps(2) newline_def

text \<open>The two blocks of \<^verbatim>\<open>openFile\<close>, run in turn, are \<^verbatim>\<open>openFile\<close>.\<close>

lemma openFile_in_blocks: "openFile t b w = openFile_rest t b (closed_file t w)"
  by (simp add: openFile_def openFile_rest_def closed_file_def)

lemma blocks_in_turn:
  "blocks [CloseOld, OpenNew b] t w = snd (openFile t b w)"
  by (cases "openFile_rest t b (closed_file t w)") (simp add: openFile_in_blocks)

text \<open>
  Claim C9, at two re-opens that overlap. A Tail holds file 0. Two goroutines each run
  \<^verbatim>\<open>openFile\<close>; both close the file the Tail holds before either opens. The first
  opens file 1 and stores it in \<^verbatim>\<open>t.file\<close>; the second opens file 2 and stores it
  over file 1, which nobody closes: files 1 and 2 are both open, and the Tail knows only
  file 2. When the second goroutine starts after the first has finished, file 1 is closed
  before file 2 is opened.
\<close>

theorem two_reopens_at_once_leave_two_files_open:
  "file (fst (blocks [CloseOld, CloseOld, OpenNew False, OpenNew False]
            (following 10) (opened ''abc''))) = Some 2
   \<and> ofiles (snd (blocks [CloseOld, CloseOld, OpenNew False, OpenNew False]
            (following 10) (opened ''abc''))) 1 = Some (0, length ''abc'')
   \<and> ofiles (snd (blocks [CloseOld, CloseOld, OpenNew False, OpenNew False]
            (following 10) (opened ''abc''))) 2 = Some (0, length ''abc'')
   \<and> ofiles (snd (blocks [CloseOld, OpenNew False, CloseOld, OpenNew False]
            (following 10) (opened ''abc''))) 1 = None
   \<and> ofiles (snd (blocks [CloseOld, OpenNew False, CloseOld, OpenNew False]
            (following 10) (opened ''abc''))) 2 = Some (0, length ''abc'')"
  by (simp add: openFile_rest_def closed_file_def world_defs fixture_defs)

section \<open>The reader stays attached\<close>


lemma retry_success_attached:
  "sent (retry n env i b err t w) = Some None \<Longrightarrow>
     attached (tail_of (retry n env i b err t w)) (world_of (retry n env i b err t w))"
proof (induction n arbitrary: i b err t w)
  case 0
  then show ?case by simp
next
  case (Suc n)
  show ?case
  proof (cases rule: retry_Suc_cases[of t b w n env i err])
    case (open_fatal e t1 w1)
    then show ?thesis using Suc.prems by simp
  next
    case (open_retry e t1 w1)
    then show ?thesis using Suc.prems Suc.IH by simp
  next
    case (watch_ok t1 w1 t2 w2)
    obtain ino where "reader t1 = Some (nfiles w)" and "ofiles w1 (nfiles w) \<noteq> None"
      using openFile_success[OF watch_ok(1)] by auto
    then have "reader t2 = Some (nfiles w)" and "ofiles w2 (nfiles w) \<noteq> None"
      using watch_ok(2) watchFile_frame(4,8)[of t1 b w1] by simp_all
    then show ?thesis using watch_ok by (simp add: attached_def)
  next
    case (watch_retry e t1 w1 t2 w2)
    then show ?thesis using Suc.prems Suc.IH by simp
  qed
qed

lemma openAndWatch_attached:
  assumes "attached t w" and "openAndWatch n env t w = Some (None, t', w')"
  shows "attached t' w'"
proof (cases "sent (retry n env 0 False None t w) = Some None")
  case True
  then show ?thesis
    using retry_success_attached[of n env 0 False None t w] openAndWatch_cases(1,2)[OF assms(2)]
    by simp
next
  case False
  then have "n = 0" using openAndWatch_cases(3)[OF assms(2)] by auto
  then show ?thesis using assms openAndWatch_cases(1,2)[OF assms(2)] by simp
qed



lemma NewTail_attached:
  "NewTail n env p cfg w = Some (Inr t, w') \<Longrightarrow> attached t w'"
proof -
  assume a: "NewTail n env p cfg w = Some (Inr t, w')"
  let ?t = "\<lparr>Lines = [], reader = None, watcher = None, fname = p, file = None, config = cfg\<rparr>"
  have "openAndWatch n env ?t w = Some (None, t, w')"
    using a by (auto simp: NewTail_def split: option.splits prod.splits)
  moreover have "attached ?t w" by (simp add: attached_def)
  ultimately show ?thesis by (rule openAndWatch_attached[rotated])
qed


section \<open>Lines on the stream\<close>




text \<open>
  Claim C10, as stated, fails. A file that holds \<^verbatim>\<open>"ab\r"\<close> is followed from its
  end; \<^verbatim>\<open>"\n"\<close> is appended and a Write event arrives: the stream gets the empty
  line, and the line of the file is \<^verbatim>\<open>"ab\r"\<close> before its newline. The carriage
  return lay before the offset the file was opened at.
\<close>

theorem return_before_the_offset_is_lost:
  "NewTail 1 quiet ''test.log'' \<lparr>Timeout = 10\<rparr>
      (boot (createFile ''test.log'' 0 (''ab'' @ [CHR 0x0D]) emptydisk))
     = Some (Inr (following 10), (opened (''ab'' @ [CHR 0x0D]))\<lparr>ofiles := [0 \<mapsto> (0, length (''ab'' @ [CHR 0x0D]))]\<rparr>)
   \<and> received (run 1 quiet
         (Watching (following 10) ((opened (''ab'' @ [CHR 0x0D]))\<lparr>ofiles := [0 \<mapsto> (0, length (''ab'' @ [CHR 0x0D]))]\<rparr>))
         [Outside (writeFile ''test.log'' [newline]), Receive (Event Write)])
       = [[]]
   \<and> spec_lines (bytes_at ''test.log'' (run 1 quiet
         (Watching (following 10) ((opened (''ab'' @ [CHR 0x0D]))\<lparr>ofiles := [0 \<mapsto> (0, length (''ab'' @ [CHR 0x0D]))]\<rparr>))
         [Outside (writeFile ''test.log'' [newline]), Receive (Event Write)]))
       = [''ab'' @ [CHR 0x0D]]"
  by (simp add: eval_defs spec_lines_def Let_def)

text \<open>
  Claim C10, amended. Only the newline is stripped: when the unread bytes start with a
  line that ends in carriage return and newline, a Write event sends that line with its
  carriage return.
\<close>

theorem carriage_return_is_kept:
  assumes "reader t = Some r" and "ofiles w r = Some (ino, pos)"
    and "drop pos (content (fs w) ino) = l @ CHR 0x0D # newline # rest"
    and "newline \<notin> set l"
  shows "received (handle n env t w (Event Write)) = Lines t @ [l @ [CHR 0x0D]]"
proof -
  have d: "drop pos (content (fs w) ino) = (l @ [CHR 0x0D]) @ newline # rest"
    using assms(3) by simp
  have nl: "newline \<notin> set (l @ [CHR 0x0D])"
    using assms(4) by (simp add: newline_def)
  have "readLines t w = (t\<lparr>Lines := Lines t @ [l @ [CHR 0x0D]]\<rparr>,
      w\<lparr>ofiles := (ofiles w)(r \<mapsto> (ino, pos + length (l @ [CHR 0x0D]) + 1))\<rparr>)"
    using assms(1,2) d nl by (rule readLines_line)
  then show ?thesis by (simp add: handle_Write)
qed

theorem carriage_return_is_kept_witness:
  "received (handle 1 quiet (following 10) (opened (''ab'' @ [CHR 0x0D, newline] @ ''cd''))
     (Event Write)) = [''ab'' @ [CHR 0x0D]]"
  using carriage_return_is_kept[of "following 10" 0
      "opened (''ab'' @ [CHR 0x0D, newline] @ ''cd'')" 0 0 "''ab''" "''cd''" 1 quiet]
  by (simp add: fixture_defs newline_def)

section \<open>Failures of the startup and of the re-open\<close>

text \<open>
  Claim C5, as stated, fails: the file is removed, the Follower has timeout 0, and the
  Remove event ends the process.
\<close>

theorem reopen_failure_is_not_escalated:
  "exited (handle 1 quiet (following 0) (elsewhere (removeFile ''test.log'') (opened []))
     (Event Remove))"
  by (simp add: eval_defs)

text \<open>
  Claim C5, amended. When a Create, Rename or Remove event triggers a re-open and
  \<^verbatim>\<open>openAndWatch\<close> returns an error, the goroutine logs that error with
  \<^verbatim>\<open>log.Fatalln\<close>, which ends the host process; nothing is sent on
  \<^verbatim>\<open>Lines\<close>, the only channel to the consumer.
\<close>

theorem reopen_failure_ends_the_process:
  assumes "op AND (Create OR Rename OR Remove) \<noteq> 0"
    and "openAndWatch n env t w = Some (Some e, t1, w1)"
  shows "handle n env t w (Event op) = Exited t1 (w1\<lparr>logged := logged w1 @ [FATA e]\<rparr>)
         \<and> Lines t1 = Lines t"
proof
  show "handle n env t w (Event op) = Exited t1 (w1\<lparr>logged := logged w1 @ [FATA e]\<rparr>)"
    using assms by (simp add: handle_def)
  have "sent (retry n env 0 False None t w) \<noteq> Some None"
    using openAndWatch_cases(3)[OF assms(2)] by auto
  then show "Lines t1 = Lines t"
    using retry_Lines_failed[of n env 0 False None t w] openAndWatch_cases(1)[OF assms(2)]
    by simp
qed

theorem reopen_failure_ends_the_process_witness:
  "exited (handle 1 quiet (following 0) (elsewhere (removeFile ''test.log'') (opened ''abc''))
     (Event Rename))
   \<and> logs (handle 1 quiet (following 0) (elsewhere (removeFile ''test.log'') (opened ''abc''))
       (Event Rename)) = [FATA ErrNotExist]
   \<and> received (handle 1 quiet (following 0) (elsewhere (removeFile ''test.log'') (opened ''abc''))
       (Event Rename)) = []"
proof -
  let ?w = "elsewhere (removeFile ''test.log'') (opened ''abc'')"
  have m: "Rename AND (Create OR Rename OR Remove) \<noteq> 0"
    by (simp add: op_defs)
  have "\<exists>t1 w1. openAndWatch 1 quiet (following 0) ?w = Some (Some ErrNotExist, t1, w1)
          \<and> logged w1 = []"
    by (simp add: eval_defs)
  then obtain t1 w1
    where a: "openAndWatch 1 quiet (following 0) ?w = Some (Some ErrNotExist, t1, w1)"
      and l: "logged w1 = []"
    by blast
  show ?thesis
    using reopen_failure_ends_the_process[OF m a] l by (simp add: following_def)
qed


lemma retry_error_is_open_error:
  "Timeout (config t) = 0 \<Longrightarrow> sent (retry n env i b err t w) = Some (Some e) \<Longrightarrow>
     \<exists>t0 b0 w0. openFile t0 b0 w0
        = (Some e, tail_of (retry n env i b err t w), world_of (retry n env i b err t w))"
proof (induction n arbitrary: i b err t w)
  case 0
  then show ?case by simp
next
  case (Suc n)
  show ?case
  proof (cases rule: retry_Suc_cases[of t b w n env i err])
    case (open_fatal e' t1 w1)
    then show ?thesis using Suc.prems by auto
  next
    case (open_retry e' t1 w1)
    then show ?thesis using Suc.prems by simp
  next
    case (watch_ok t1 w1 t2 w2)
    then show ?thesis using Suc.prems by simp
  next
    case (watch_retry e' t1 w1 t2 w2)
    let ?w = "w2\<lparr>fs := env i (fs w2)\<rparr>"
    let ?r = "retry n env (Suc i) b (Some e') t2 ?w"
    have "config t2 = config t"
      using watch_retry openFile_frame(3)[of t b w] watchFile_frame(2)[of t1 b w1] by simp
    then have "\<exists>t0 b0 w0. openFile t0 b0 w0 = (Some e, tail_of ?r, world_of ?r)"
      using Suc.prems watch_retry by (intro Suc.IH) simp_all
    then show ?thesis using watch_retry by simp
  qed
qed

text \<open>
  Claim C4, as stated, fails: with timeout 0 and no file at the path, \<^verbatim>\<open>NewTail\<close>
  returns the not-found error of its first attempt, though the file is created right
  after that attempt and four more attempts were allowed.
\<close>

theorem timeout_zero_gives_up_at_once:
  "NewTail 5 (appears ''test.log'' 0 []) ''test.log'' \<lparr>Timeout = 0\<rparr> (boot emptydisk)
     = Some (Inl ErrNotExist, boot emptydisk)"
  by (simp add: eval_defs IsNotExist_def eval_nat_numeral)

text \<open>
  Claim C4, amended. With timeout 0 no timer is started, so \<^verbatim>\<open>openAndWatch\<close> never
  gives up because of a timeout; but a failed open is not retried: when the first open
  fails its error is returned at once, and every error \<^verbatim>\<open>openAndWatch\<close> returns
  is the error of a failed open.
\<close>

theorem timeout_zero_open_failure_is_final:
  assumes "Timeout (config t) = 0"
  shows "(openFile t False w = (Some e, t1, w1) \<longrightarrow>
            openAndWatch (Suc n) env t w = Some (Some e, t1, w1))
       \<and> (openAndWatch m env t w = Some (Some e', t', w') \<longrightarrow>
            (\<exists>t0 b0 w0. openFile t0 b0 w0 = (Some e', t', w')))"
proof (intro conjI impI)
  assume o: "openFile t False w = (Some e, t1, w1)"
  have "config t1 = config t"
    using openFile_frame(3)[of t False w] o by simp
  then show "openAndWatch (Suc n) env t w = Some (Some e, t1, w1)"
    using o assms by (simp add: openAndWatch_def retry.simps(2))
next
  assume a: "openAndWatch m env t w = Some (Some e', t', w')"
  then have "sent (retry m env 0 False None t w) = Some (Some e')"
    using openAndWatch_cases(3)[OF a] assms by simp
  then show "\<exists>t0 b0 w0. openFile t0 b0 w0 = (Some e', t', w')"
    using retry_error_is_open_error[OF assms, of m env 0 False None w e']
      openAndWatch_cases(1,2)[OF a] by simp
qed

theorem timeout_zero_open_failure_is_final_witness:
  "openAndWatch 5 (appears ''test.log'' 0 []) (fresh ''test.log'' 0) (boot emptydisk)
     = Some (Some ErrNotExist, fresh ''test.log'' 0, boot emptydisk)
   \<and> (\<exists>t0 b0 w0. openFile t0 b0 w0 = (Some ErrNotExist, fresh ''test.log'' 0, boot emptydisk))"
proof -
  have c: "Timeout (config (fresh ''test.log'' 0)) = 0"
    by (simp add: fresh_def)
  have o: "openFile (fresh ''test.log'' 0) False (boot emptydisk)
      = (Some ErrNotExist, fresh ''test.log'' 0, boot emptydisk)"
    by (simp add: eval_defs)
  show ?thesis
    using timeout_zero_open_failure_is_final[OF c, of "boot emptydisk" ErrNotExist
        "fresh ''test.log'' 0" "boot emptydisk" 4 "appears ''test.log'' 0 []"
        5 ErrNotExist "fresh ''test.log'' 0" "boot emptydisk"] o
    by simp
qed


section \<open>The fresh-file flag\<close>

lemma readLines_Lines:
  assumes "reader t = Some r" and "ofiles w r = Some (ino, pos)"
  shows "Lines (fst (readLines t w)) =
     (if newline \<in> set (drop pos (content (fs w) ino))
      then Lines t @ [takeWhile (\<lambda>c. c \<noteq> newline) (drop pos (content (fs w) ino))]
      else Lines t)"
    and "\<exists>pos'. ofiles (snd (readLines t w)) r = Some (ino, pos')"
proof -
  have "received (handle 0 quiet t w (Event Write)) = Lines (fst (readLines t w))"
    by (cases "readLines t w") (simp add: handle_Write)
  then show "Lines (fst (readLines t w)) =
     (if newline \<in> set (drop pos (content (fs w) ino))
      then Lines t @ [takeWhile (\<lambda>c. c \<noteq> newline) (drop pos (content (fs w) ino))]
      else Lines t)"
    using handle_Write_emits[OF assms, of 0 quiet] by simp
  show "\<exists>pos'. ofiles (snd (readLines t w)) r = Some (ino, pos')"
    using assms by (simp add: readLines_def ReadString_def Let_def)
qed

lemma open_watch_new:
  assumes o: "openFile t True w = (None, t1, w1)"
    and wf: "watchFile t1 True w1 = (None, t2, w2)"
  shows "\<exists>r ino pos. reader t2 = Some r \<and> names (fs w2) (fname t2) = Some ino
           \<and> ofiles w2 r = Some (ino, pos)
           \<and> Lines t2 = (if newline \<in> set (content (fs w2) ino)
                then Lines t @ [takeWhile (\<lambda>c. c \<noteq> newline) (content (fs w2) ino)]
                else Lines t)"
proof -
  from o obtain ino where n: "names (fs w) (fname t) = Some ino"
    and r1: "reader t1 = Some (nfiles w)" and o1: "ofiles w1 (nfiles w) = Some (ino, 0)"
    and l1: "Lines t1 = Lines t"
    by (auto simp: openFile_eq closed_file_simps Let_def split: option.splits if_splits)
  have f1: "fs w1 = fs w" "fname t1 = fname t"
    using openFile_frame(5,2)[of t True w] o by simp_all
  let ?t = "t1\<lparr>watcher := Some (nwatchers w1)\<rparr>"
  let ?w = "(closed_watcher t1 w1)\<lparr>nwatchers := Suc (nwatchers w1),
              watchers := (watchers (closed_watcher t1 w1))(nwatchers w1 \<mapsto> [fname t1])\<rparr>"
  from wf have rl: "readLines ?t ?w = (t2, w2)"
    by (simp add: watchFile_eq Let_def split: option.splits if_splits)
  have a: "reader ?t = Some (nfiles w)" using r1 by simp
  have b: "ofiles ?w (nfiles w) = Some (ino, 0)" using o1 by (simp add: closed_watcher_simps)
  have c: "fs ?w = fs w" using f1 by (simp add: closed_watcher_simps)
  have "Lines t2 = (if newline \<in> set (content (fs w) ino)
                then Lines t @ [takeWhile (\<lambda>c. c \<noteq> newline) (content (fs w) ino)]
                else Lines t)"
    using readLines_Lines(1)[OF a b] rl l1 c by simp
  moreover obtain pos where "ofiles w2 (nfiles w) = Some (ino, pos)"
    using readLines_Lines(2)[OF a b] rl by auto
  moreover have "reader t2 = Some (nfiles w)" "fs w2 = fs w" "fname t2 = fname t"
    using readLines_frame(4,6,1)[of ?t ?w] rl a c f1 by simp_all
  ultimately show ?thesis using n by simp
qed

lemma retry_new_success:
  "retry n env i True err t w = Sent None b' e' t' w' \<Longrightarrow>
     \<exists>r ino pos. reader t' = Some r \<and> names (fs w') (fname t') = Some ino
           \<and> ofiles w' r = Some (ino, pos)
           \<and> Lines t' = (if newline \<in> set (content (fs w') ino)
                then Lines t @ [takeWhile (\<lambda>c. c \<noteq> newline) (content (fs w') ino)]
                else Lines t)"
proof (induction n arbitrary: i err t w)
  case 0
  then show ?case by simp
next
  case (Suc n)
  have l: "Lines (fst (snd (openFile t True w))) = Lines t"
    by (rule openFile_frame)
  show ?case
  proof (cases rule: retry_Suc_cases[of t True w n env i err])
    case (open_fatal e t1 w1)
    then show ?thesis using Suc.prems by simp
  next
    case (open_retry e t1 w1)
    let ?w = "w1\<lparr>fs := env i (fs w1)\<rparr>"
    have r: "retry n env (Suc i) True (Some e) t1 ?w = Sent None b' e' t' w'"
      using open_retry Suc.prems by simp
    have lt: "Lines t1 = Lines t"
      using open_retry l by simp
    show ?thesis using Suc.IH[OF r] unfolding lt .
  next
    case (watch_ok t1 w1 t2 w2)
    then have e: "t2 = t'" "w2 = w'" using Suc.prems by simp_all
    show ?thesis using open_watch_new[OF watch_ok(1,2)] unfolding e .
  next
    case (watch_retry e t1 w1 t2 w2)
    let ?w = "w2\<lparr>fs := env i (fs w2)\<rparr>"
    have r: "retry n env (Suc i) True (Some e) t2 ?w = Sent None b' e' t' w'"
      using watch_retry Suc.prems by simp
    have lt: "Lines t2 = Lines t"
      using watch_retry l watchFile_failed(1)[of t1 True w1] by simp
    show ?thesis using Suc.IH[OF r] unfolding lt .
  qed
qed

text \<open>
  Claim C8. In the retry loop, an open that fails with a not-found error sets the
  fresh-file flag: the loop's flag is true from then on, and when the loop goes on (the
  timeout is not 0) the remaining attempts run with the flag true. A loop that runs with
  the flag true ends with it true. When such a loop ends in success, the file at the path
  was read from offset 0: the reader wraps a handle on that file, and the stream has
  received the file's first line when it has one.
\<close>

theorem fresh_flag_is_set_and_kept:
  "(openFile t b w = (Some e, t1, w1) \<and> IsNotExist e \<longrightarrow>
       flag (retry (Suc n) env i b err t w)
       \<and> (Timeout (config t) \<noteq> 0 \<longrightarrow>
            retry (Suc n) env i b err t w
              = retry n env (Suc i) True (Some e) t1 (w1\<lparr>fs := env i (fs w1)\<rparr>)))
   \<and> flag (retry n env i True err t w)
   \<and> (retry n env i True err t w = Sent None b' e' t' w' \<longrightarrow>
       (\<exists>r ino pos. reader t' = Some r \<and> names (fs w') (fname t') = Some ino
           \<and> ofiles w' r = Some (ino, pos)
           \<and> Lines t' = (if newline \<in> set (content (fs w') ino)
                then Lines t @ [takeWhile (\<lambda>c. c \<noteq> newline) (content (fs w') ino)]
                else Lines t)))"
proof (intro conjI impI)
  assume a: "openFile t b w = (Some e, t1, w1) \<and> IsNotExist e"
  show "flag (retry (Suc n) env i b err t w)"
  proof (cases rule: retry_Suc_cases[of t b w n env i err])
    case (open_fatal e' t1' w1')
    then show ?thesis using a by simp
  next
    case (open_retry e' t1' w1')
    then show ?thesis using a retry_flag[of True n env "Suc i" "Some e" t1] by simp
  next
    case (watch_ok t1' w1' t2 w2)
    then show ?thesis using a by simp
  next
    case (watch_retry e' t1' w1' t2 w2)
    then show ?thesis using a by simp
  qed
  {
    assume "Timeout (config t) \<noteq> 0"
    then show "retry (Suc n) env i b err t w
              = retry n env (Suc i) True (Some e) t1 (w1\<lparr>fs := env i (fs w1)\<rparr>)"
      using a openFile_frame(3)[of t b w] by (simp add: retry.simps(2))
  }
next
  show "flag (retry n env i True err t w)"
    by (simp add: retry_flag)
next
  assume "retry n env i True err t w = Sent None b' e' t' w'"
  then show "\<exists>r ino pos. reader t' = Some r \<and> names (fs w') (fname t') = Some ino
           \<and> ofiles w' r = Some (ino, pos)
           \<and> Lines t' = (if newline \<in> set (content (fs w') ino)
                then Lines t @ [takeWhile (\<lambda>c. c \<noteq> newline) (content (fs w') ino)]
                else Lines t)"
    by (rule retry_new_success)
qed


theorem fresh_flag_is_set_and_kept_witness:
  "flag (retry 2 (appears ''test.log'' 0 (''a'' @ [newline] @ ''b'')) 0 False None
          (fresh ''test.log'' 10) (boot emptydisk))
   \<and> retry 2 (appears ''test.log'' 0 (''a'' @ [newline] @ ''b'')) 0 False None
          (fresh ''test.log'' 10) (boot emptydisk)
       = retry 1 (appears ''test.log'' 0 (''a'' @ [newline] @ ''b'')) 1 True (Some ErrNotExist)
          (fresh ''test.log'' 10)
          (boot (createFile ''test.log'' 0 (''a'' @ [newline] @ ''b'') emptydisk))
   \<and> Lines (tail_of (retry 1 (appears ''test.log'' 0 (''a'' @ [newline] @ ''b'')) 1 True
          (Some ErrNotExist) (fresh ''test.log'' 10)
          (boot (createFile ''test.log'' 0 (''a'' @ [newline] @ ''b'') emptydisk)))) = [''a'']"
proof -
  let ?env = "appears ''test.log'' 0 (''a'' @ [newline] @ ''b'')"
  let ?t = "fresh ''test.log'' 10"
  let ?w = "boot emptydisk"
  let ?w' = "boot (createFile ''test.log'' 0 (''a'' @ [newline] @ ''b'') emptydisk)"
  let ?r = "retry (Suc 0) ?env (Suc 0) True (Some ErrNotExist) ?t ?w'"
  have o: "openFile ?t False ?w = (Some ErrNotExist, ?t, ?w) \<and> IsNotExist ErrNotExist"
    by (simp add: eval_defs IsNotExist_def)
  have c: "Timeout (config ?t) \<noteq> 0"
    by (simp add: fresh_def)
  have ev: "?w\<lparr>fs := ?env 0 (fs ?w)\<rparr> = ?w'"
    by (simp add: fixture_defs)
  have "\<exists>b' e' t' w'. ?r = Sent None b' e' t' w'
          \<and> fname t' = ''test.log'' \<and> fs w' = fs ?w' \<and> Lines ?t = []"
    by (auto simp: eval_defs)
  then obtain b' e' t' w'
    where s: "?r = Sent None b' e' t' w'"
      and f: "fname t' = ''test.log''" "fs w' = fs ?w'" "Lines ?t = []"
    by blast
  note first = fresh_flag_is_set_and_kept[of ?t False ?w ErrNotExist ?t ?w "Suc 0" ?env 0 None]
  have A: "flag (retry (Suc (Suc 0)) ?env 0 False None ?t ?w)"
    using first o by blast
  have "retry (Suc (Suc 0)) ?env 0 False None ?t ?w
      = retry (Suc 0) ?env (Suc 0) True (Some ErrNotExist) ?t (?w\<lparr>fs := ?env 0 (fs ?w)\<rparr>)"
    using first o c by blast
  then have B: "retry (Suc (Suc 0)) ?env 0 False None ?t ?w = ?r"
    unfolding ev .
  have "\<exists>r ino pos. reader t' = Some r \<and> names (fs w') (fname t') = Some ino
           \<and> ofiles w' r = Some (ino, pos)
           \<and> Lines t' = (if newline \<in> set (content (fs w') ino)
                then Lines ?t @ [takeWhile (\<lambda>c. c \<noteq> newline) (content (fs w') ino)]
                else Lines ?t)"
    using fresh_flag_is_set_and_kept[of ?t False ?w' ErrNotExist ?t ?w "Suc 0" ?env "Suc 0"
        "Some ErrNotExist" b' e' t' w'] s
    by blast
  then have "Lines t' = [''a'']"
    using f by (auto simp: fixture_defs newline_def)
  then have C: "Lines (tail_of ?r) = [''a'']"
    using s by simp
  show ?thesis
    unfolding numeral_2_eq_2 One_nat_def using A B C by blast
qed

section \<open>Where the code reads one line and where it drops bytes\<close>

text \<open>
  Claim C1, at a new file of two lines. The path does not exist at the first attempt and
  holds \<^verbatim>\<open>"a\nb\n"\<close> at the second. The file is opened without a seek, as the claim
  says, but \<^verbatim>\<open>readLines\<close> runs once: only \<open>a\<close> is sent, the handle stands at offset
  2 of 4, and \<open>b\<close> is not among the initial lines. (That the handle is at the end of the
  file when the flag is false, and at offset 0 when it is true, is \<open>openFile_success\<close>.)
\<close>

theorem new_file_only_first_line_is_read:
  "NewTail 2 (appears ''test.log'' 0 (''a'' @ [newline] @ ''b'' @ [newline])) ''test.log''
      \<lparr>Timeout = 10\<rparr> (boot emptydisk)
   = Some (Inr ((following 10)\<lparr>Lines := [''a'']\<rparr>),
           (opened (''a'' @ [newline] @ ''b'' @ [newline]))\<lparr>ofiles := [0 \<mapsto> (0, 2)]\<rparr>)"
  by (simp add: eval_defs IsNotExist_def numeral_2_eq_2)

text \<open>
  Claim C2, at one append of two lines. The Tail follows an empty file; another process
  appends \<^verbatim>\<open>"a\nb\n"\<close> in one write and one Write event arrives. Only \<open>a\<close> is
  sent, and nothing more is sent until another Write event comes.
\<close>

theorem one_write_event_one_line:
  "NewTail 1 quiet ''test.log'' \<lparr>Timeout = 10\<rparr>
      (boot (createFile ''test.log'' 0 [] emptydisk))
     = Some (Inr (following 10), opened [])
   \<and> received (run 1 quiet (Watching (following 10) (opened []))
         [Outside (writeFile ''test.log'' (''a'' @ [newline] @ ''b'' @ [newline])),
          Receive (Event Write)]) = [''a'']
   \<and> received (run 1 quiet (Watching (following 10) (opened []))
         [Outside (writeFile ''test.log'' (''a'' @ [newline] @ ''b'' @ [newline])),
          Receive (Event Write), Receive (Event Chmod), Receive (WatcherError None)]) = [''a'']"
  by (simp add: eval_defs)

text \<open>
  Claim C7, at a line written in two parts. \<^verbatim>\<open>"foo"\<close> is appended and a Write event
  arrives: the three bytes are read and nothing is sent. \<^verbatim>\<open>"bar\n"\<close> is appended and a
  Write event arrives: \<open>bar\<close> is sent. The bytes \<open>foo\<close> were read, were not delivered,
  and were not kept for the line they begin.
\<close>

theorem unterminated_bytes_are_dropped:
  "received (run 1 quiet (Watching (following 10) (opened []))
     [Outside (writeFile ''test.log'' ''foo''), Receive (Event Write)]) = []
   \<and> received (run 1 quiet (Watching (following 10) (opened []))
     [Outside (writeFile ''test.log'' ''foo''), Receive (Event Write),
      Outside (writeFile ''test.log'' (''bar'' @ [newline])), Receive (Event Write)]) = [''bar'']"
  by (simp add: eval_defs Let_def)

lemma retry_watch_down:
  assumes "notify_down (fs w)" and "names (fs w) (fname t) = Some ino"
    and "\<not> noaccess (fs w) (fname t)" and "\<not> noseek (fs w) ino"
  shows "sent (retry n quiet i b err t w) = None"
  using assms
proof (induction n arbitrary: i b err t w)
  case 0
  then show ?case by simp
next
  case (Suc n)
  have o: "fst (openFile t b w) = None"
    using Suc.prems by (simp add: openFile_eq Let_def)
  show ?case
  proof (cases rule: retry_Suc_cases[of t b w n quiet i err])
    case (open_fatal e t1 w1)
    then show ?thesis using o by simp
  next
    case (open_retry e t1 w1)
    then show ?thesis using o by simp
  next
    case (watch_ok t1 w1 t2 w2)
    then have "fs w1 = fs w" using openFile_frame(5)[of t b w] by simp
    then have "fst (watchFile t1 b w1) \<noteq> None"
      using Suc.prems(1) by (simp add: watchFile_eq Let_def)
    then show ?thesis using watch_ok by simp
  next
    case (watch_retry e t1 w1 t2 w2)
    let ?w = "w2\<lparr>fs := quiet i (fs w2)\<rparr>"
    have f: "fs ?w = fs w" "fname t2 = fname t"
      using watch_retry openFile_frame(5,2)[of t b w] watchFile_frame(5,1)[of t1 b w1]
      by (simp_all add: quiet_def)
    have "sent (retry n quiet (Suc i) b (Some e) t2 ?w) = None"
      by (rule Suc.IH) (use Suc.prems f in simp_all)
    then show ?thesis using watch_retry by simp
  qed
qed

text \<open>
  Claim C3, at a watcher that cannot be created. The file exists, the timeout is 0, and
  \<^verbatim>\<open>fsnotify.NewWatcher\<close> fails at the first attempt. When it succeeds at the second
  attempt, \<^verbatim>\<open>NewTail\<close> has not returned after the first and returns after the
  second, with a Tail and no error. When it keeps failing, \<^verbatim>\<open>NewTail\<close> has not
  returned after any number of attempts.
\<close>

theorem failed_watch_is_retried_at_timeout_zero:
  "NewTail 1 recovers ''test.log'' \<lparr>Timeout = 0\<rparr>
      (boot ((createFile ''test.log'' 0 [] emptydisk)\<lparr>notify_down := True\<rparr>)) = None
   \<and> map_option fst (NewTail 2 recovers ''test.log'' \<lparr>Timeout = 0\<rparr>
      (boot ((createFile ''test.log'' 0 [] emptydisk)\<lparr>notify_down := True\<rparr>)))
     = Some (Inr \<lparr>Lines = [], reader = Some 1, watcher = Some 0, fname = ''test.log'',
                  file = Some 1, config = \<lparr>Timeout = 0\<rparr>\<rparr>)
   \<and> NewTail n quiet ''test.log'' \<lparr>Timeout = 0\<rparr>
      (boot ((createFile ''test.log'' 0 [] emptydisk)\<lparr>notify_down := True\<rparr>)) = None"
proof (intro conjI)
  let ?w = "boot ((createFile ''test.log'' 0 [] emptydisk)\<lparr>notify_down := True\<rparr>)"
  show "NewTail 1 recovers ''test.log'' \<lparr>Timeout = 0\<rparr> ?w = None"
    by (simp add: eval_defs)
  show "map_option fst (NewTail 2 recovers ''test.log'' \<lparr>Timeout = 0\<rparr> ?w)
     = Some (Inr \<lparr>Lines = [], reader = Some 1, watcher = Some 0, fname = ''test.log'',
                  file = Some 1, config = \<lparr>Timeout = 0\<rparr>\<rparr>)"
    by (simp add: eval_defs numeral_2_eq_2)
  have "sent (retry n quiet 0 False None (fresh ''test.log'' 0) ?w) = None"
    by (rule retry_watch_down[where ino = 0]) (simp_all add: fixture_defs)
  then show "NewTail n quiet ''test.log'' \<lparr>Timeout = 0\<rparr> ?w = None"
    by (cases "retry n quiet 0 False None (fresh ''test.log'' 0) ?w")
       (simp_all add: NewTail_def openAndWatch_def fresh_def)
qed

end
